theory Spec2Isabelle
  imports Main "HOL-Library.Word"
begin

section \<open>Strings and the DNS name helpers\<close>

text \<open>
  Go strings are byte sequences; they are modelled as \<^typ>\<open>string\<close> (a list of
  \<^typ>\<open>char\<close>, one per byte).
\<close>

text \<open>
  \<^verbatim>\<open>strings.ToLower\<close> of the Go standard library on the ASCII range: the bytes
  \<^verbatim>\<open>'A'..'Z'\<close> (65..90) move to \<^verbatim>\<open>'a'..'z'\<close>; every other byte is kept.
  On a string of ASCII bytes (below 128) this is what the Go function computes. On other
  strings the Go function lower-cases Unicode code points and encodes them again, which
  can change the bytes and the length; the byte map below does not model that. A
  statement that compares a string with its lower-cased form is therefore made for
  ASCII strings (\<open>asciiName\<close>), or on the lower-cased string itself.
\<close>

definition asciiName :: "string \<Rightarrow> bool" where
  "asciiName s = list_all (\<lambda>c. (of_char c :: nat) < 128) s"

definition toLowerByte :: "char \<Rightarrow> char" where
  "toLowerByte c =
     (if 65 \<le> (of_char c :: nat) \<and> (of_char c :: nat) \<le> 90
      then char_of ((of_char c :: nat) + 32) else c)"

definition ToLower :: "string \<Rightarrow> string" where
  "ToLower s = map toLowerByte s"

text \<open>
  Modelled from the spec: \<^verbatim>\<open>dns.IsFqdn\<close>, \<^verbatim>\<open>dns.Fqdn\<close>,
  \<^verbatim>\<open>dns.CanonicalName\<close>, \<^verbatim>\<open>dns.SplitDomainName\<close> and
  \<^verbatim>\<open>dns.IsDomainName\<close> belong to the DNS protocol library the repository imports
  (\<^verbatim>\<open>github.com/miekg/dns\<close>); their code is not part of the repository. The
  spec treats them at their interface: a name is "always treated as fully-qualified
  (trailing-dot-normalized)", the canonical form is "lowercase with a trailing separator",
  a label is "one dot-separated segment of a domain name" of "up to 63 characters", and
  the block list has "no escaping". So a dot always separates labels here (a backslash
  is an ordinary byte), a legal name is non-empty, has no empty label (the root name
  \<^verbatim>\<open>.\<close> apart) and no label above 63 bytes, and, as the library documents, fits the
  255 octets of the wire format.
\<close>

definition IsFqdn :: "string \<Rightarrow> bool" where
  "IsFqdn s = (case rev s of [] \<Rightarrow> False | c # _ \<Rightarrow> c = CHR ''.'')"

definition Fqdn :: "string \<Rightarrow> string" where
  "Fqdn s = (if IsFqdn s then s else s @ ''.'')"

definition CanonicalName :: "string \<Rightarrow> string" where
  "CanonicalName s = ToLower (Fqdn s)"

text \<open>
  \<open>splitDots acc s\<close> cuts \<open>s\<close> at every dot; \<open>acc\<close> holds the bytes of the
  label being read, last byte first.
\<close>

fun splitDots :: "string \<Rightarrow> string \<Rightarrow> string list" where
  "splitDots acc [] = [rev acc]"
| "splitDots acc (c # cs) =
     (if c = CHR ''.'' then rev acc # splitDots [] cs else splitDots (c # acc) cs)"

text \<open>
  \<^verbatim>\<open>dns.SplitDomainName\<close>: \<^verbatim>\<open>www.miek.nl.\<close> and \<^verbatim>\<open>www.miek.nl\<close> both give
  \<^verbatim>\<open>[www, miek, nl]\<close>; the empty string and the root name give no label.
\<close>

definition SplitDomainName :: "string \<Rightarrow> string list" where
  "SplitDomainName s =
     (if s = [] \<or> s = ''.'' then []
      else splitDots [] (if IsFqdn s then butlast s else s))"

definition wireLength :: "string list \<Rightarrow> nat" where
  "wireLength ls = sum_list (map (\<lambda>l. Suc (length l)) ls) + 1"

definition legalLabel :: "string \<Rightarrow> bool" where
  "legalLabel l = (1 \<le> length l \<and> length l \<le> 63)"

definition IsDomainName :: "string \<Rightarrow> bool" where
  "IsDomainName s =
     (if s = [] then False
      else if Fqdn s = ''.'' then True
      else list_all legalLabel (SplitDomainName (Fqdn s))
           \<and> wireLength (SplitDomainName (Fqdn s)) \<le> 255)"

section \<open>The label trie (package globtrie)\<close>

text \<open>
  \<^verbatim>\<open>type node map[string]node\<close>: a node maps a label to its child. Every node the
  code creates is a fresh \<^verbatim>\<open>node{}\<close> reached from one parent only, so the
  in-place updates of the Go code are the functional updates of a tree.
\<close>

datatype node = Node (children: "string \<Rightarrow> node option")

definition emptyNode :: node where
  "emptyNode = Node (\<lambda>_. None)"

record GlobTrie =
  root :: node

definition GlobTrie_New :: GlobTrie where
  "GlobTrie_New = \<lparr>root = emptyNode\<rparr>"

datatype error =
    InvalidDomain
  | InvalidDomainExclamation
  | InvalidDomainLevels
  | ReadError string
  | LoadingBlocklist error
  | ReadingRandom error
  | ExchangeError string

text \<open>
  The loop of \<^verbatim>\<open>Insert\<close>: for each label in turn, create the child when it is
  missing, then step into it. The list is in walking order (last label first).
\<close>

fun insertLabels :: "string list \<Rightarrow> node \<Rightarrow> node" where
  "insertLabels [] n = n"
| "insertLabels (label # rest) n =
     (let child = (case children n label of None \<Rightarrow> emptyNode | Some c \<Rightarrow> c)
      in Node ((children n)(label \<mapsto> insertLabels rest child)))"

text \<open>
  \<^verbatim>\<open>Insert\<close> returns the trie as the call leaves it, and the error (\<open>None\<close> for
  \<^verbatim>\<open>nil\<close>). The terminal marker \<^verbatim>\<open>!\<close> is put in front of the labels and the
  loop runs from the last index down to 0.
\<close>

definition GlobTrie_Insert :: "GlobTrie \<Rightarrow> string \<Rightarrow> GlobTrie \<times> error option" where
  "GlobTrie_Insert lm s0 =
     (let s = ToLower s0 in
      if \<not> IsDomainName s then (lm, Some InvalidDomain)
      else if CHR ''!'' \<in> set s then (lm, Some InvalidDomainExclamation)
      else let labels = SplitDomainName s in
        if length labels < 2 then (lm, Some InvalidDomainLevels)
        else (lm\<lparr>root := insertLabels (rev (''!'' # labels)) (root lm)\<rparr>, None))"

text \<open>
  The loop of \<^verbatim>\<open>Contains\<close>, on the labels in walking order. The result is the
  node the walk ends in, or \<open>None\<close> where the loop returns false. \<open>prevNode\<close> is
  \<open>None\<close> for \<^verbatim>\<open>nil\<close>. The third branch keeps the label position
  (\<^verbatim>\<open>i++\<close> before the loop's \<^verbatim>\<open>i--\<close>).
\<close>

function containsLoop :: "node \<Rightarrow> node option \<Rightarrow> string list \<Rightarrow> node option" where
  "containsLoop currNode prevNode [] = Some currNode"
| "containsLoop currNode prevNode (label # rest) =
     (case children currNode label of
        Some nextNode \<Rightarrow> containsLoop nextNode (Some currNode) rest
      | None \<Rightarrow>
          (case children currNode ''*'' of
             Some glob \<Rightarrow> containsLoop glob None rest
           | None \<Rightarrow>
               (case prevNode of
                  None \<Rightarrow> None
                | Some p \<Rightarrow>
                    (case children p ''*'' of
                       None \<Rightarrow> None
                     | Some glob \<Rightarrow> containsLoop glob None (label # rest)))))"
  by pat_completeness auto
termination
  by (relation "measure (\<lambda>(c, p, ls). 2 * length ls + (case p of None \<Rightarrow> 0 | Some _ \<Rightarrow> 1))")
     auto

definition GlobTrie_Contains :: "GlobTrie \<Rightarrow> string \<Rightarrow> bool" where
  "GlobTrie_Contains lm s0 =
     (let s = ToLower s0 in
      if \<not> IsDomainName s then False
      else if CHR ''!'' \<in> set s \<or> CHR ''*'' \<in> set s then False
      else let labels = SplitDomainName s in
        if length labels < 2 then False
        else (case containsLoop (root lm) None (rev labels) of
                None \<Rightarrow> False
              | Some n \<Rightarrow> (case children n ''!'' of None \<Rightarrow> False | Some _ \<Rightarrow> True)))"

section \<open>The exact-name set (package stringset) and the block list (package blocklist)\<close>

text \<open>\<^verbatim>\<open>type StringSet map[string]struct{}\<close>: the keys of the map, compared byte by byte.\<close>

type_synonym StringSet = "string set"

definition StringSet_New :: StringSet where
  "StringSet_New = {}"

definition StringSet_Insert :: "StringSet \<Rightarrow> string \<Rightarrow> StringSet \<times> error option" where
  "StringSet_Insert st s = (insert s st, None)"

definition StringSet_Contains :: "StringSet \<Rightarrow> string \<Rightarrow> bool" where
  "StringSet_Contains st s = (s \<in> st)"

record Blocklist =
  exact :: StringSet
  glob :: GlobTrie

definition Blocklist_Empty :: Blocklist where
  "Blocklist_Empty = \<lparr>exact = StringSet_New, glob = GlobTrie_New\<rparr>"

text \<open>
  What \<^verbatim>\<open>Load\<close> sees of its \<^verbatim>\<open>bufio.Scanner\<close>: the lines for which
  \<^verbatim>\<open>Scan()\<close> returned true, in order, and what \<^verbatim>\<open>Err()\<close> reports once
  \<^verbatim>\<open>Scan()\<close> has returned false (\<open>None\<close> at the end of the input, the reader's
  error when the reader failed).
\<close>

record Scanner =
  tokens :: "string list"
  scanErr :: "error option"

text \<open>
  The body of the \<^verbatim>\<open>for s.Scan()\<close> loop, on the block list and the counter.
  The counter is a Go \<^verbatim>\<open>uint\<close>; it counts lines held in memory and stays far
  below the word size, so it is a natural number here.
\<close>

definition loadLine :: "Blocklist \<times> nat \<Rightarrow> string \<Rightarrow> Blocklist \<times> nat" where
  "loadLine st l0 =
     (case st of (bl, cnt) \<Rightarrow>
        if \<not> IsDomainName l0 then (bl, cnt)
        else let l = CanonicalName l0 in
          if CHR ''*'' \<in> set l
          then (case GlobTrie_Insert (glob bl) l of
                  (g, Some err) \<Rightarrow> (bl\<lparr>glob := g\<rparr>, cnt)
                | (g, None) \<Rightarrow> (bl\<lparr>glob := g\<rparr>, cnt + 1))
          else (case StringSet_Insert (exact bl) l of
                  (e, Some err) \<Rightarrow> (bl\<lparr>exact := e\<rparr>, cnt)
                | (e, None) \<Rightarrow> (bl\<lparr>exact := e\<rparr>, cnt + 1)))"

fun loadLoop :: "Blocklist \<times> nat \<Rightarrow> string list \<Rightarrow> Blocklist \<times> nat" where
  "loadLoop st [] = st"
| "loadLoop st (l # ls) = loadLoop (loadLine st l) ls"

text \<open>
  \<^verbatim>\<open>Load\<close> returns a pointer, the counter and the error; the pointer is an
  option here (\<open>None\<close> for \<^verbatim>\<open>nil\<close>).
\<close>

definition Blocklist_Load :: "Scanner \<Rightarrow> Blocklist option \<times> nat \<times> error option" where
  "Blocklist_Load s =
     (case loadLoop (Blocklist_Empty, 0) (tokens s) of (bl, cnt) \<Rightarrow>
        (case scanErr s of
           Some err \<Rightarrow> (Some bl, cnt, Some (LoadingBlocklist err))
         | None \<Rightarrow> (Some bl, cnt, None)))"

definition Blocklist_Contains :: "Blocklist \<Rightarrow> string \<Rightarrow> bool" where
  "Blocklist_Contains bl fqdn =
     (StringSet_Contains (exact bl) fqdn \<or> GlobTrie_Contains (glob bl) fqdn)"

section \<open>The round-robin selector (package roundrobin)\<close>

text \<open>
  The mutex serialises the calls of \<^verbatim>\<open>Next\<close>; a sequence of calls is modelled
  as the sequence of states. \<^verbatim>\<open>idx\<close> is a Go \<^verbatim>\<open>int\<close>: it stays below the
  length of the list, so \<^verbatim>\<open>r.idx + 1\<close> never wraps, and on non-negative
  operands Go's \<^verbatim>\<open>%\<close> is \<open>mod\<close>.
\<close>

record RoundRobin =
  list :: "string list"
  idx :: int

datatype panic = IndexOutOfRange

definition RoundRobin_New :: "string list \<Rightarrow> RoundRobin" where
  "RoundRobin_New ss = \<lparr>list = ss, idx = 0\<rparr>"

text \<open>\<^verbatim>\<open>r.list[r.idx]\<close> panics when the index is outside the list.\<close>

definition RoundRobin_Next :: "RoundRobin \<Rightarrow> panic + (string \<times> RoundRobin)" where
  "RoundRobin_Next r =
     (if 0 \<le> idx r \<and> idx r < int (length (list r))
      then Inr (list r ! nat (idx r), r\<lparr>idx := (idx r + 1) mod int (length (list r))\<rparr>)
      else Inl IndexOutOfRange)"

text \<open>\<open>n\<close> calls of \<^verbatim>\<open>Next\<close> one after the other: the addresses returned, in order.\<close>

fun callNext :: "nat \<Rightarrow> RoundRobin \<Rightarrow> panic + (string list \<times> RoundRobin)" where
  "callNext 0 r = Inr ([], r)"
| "callNext (Suc n) r =
     (case RoundRobin_Next r of
        Inl p \<Rightarrow> Inl p
      | Inr (s, r') \<Rightarrow>
          (case callNext n r' of
             Inl p \<Rightarrow> Inl p
           | Inr (ss, r'') \<Rightarrow> Inr (s # ss, r'')))"

section \<open>The name-server list (package iplist) and its use in main\<close>

text \<open>The field \<^verbatim>\<open>values\<close> of the Go struct is \<open>ipValues\<close> here.\<close>

record IPList =
  ipValues :: "string list"

text \<open>The loop of \<^verbatim>\<open>Uniq\<close>: \<open>seen\<close> is the map of the values already kept.\<close>

fun uniqLoop :: "string set \<Rightarrow> string list \<Rightarrow> string list" where
  "uniqLoop seen [] = []"
| "uniqLoop seen (v # vs) =
     (if v \<in> seen then uniqLoop seen vs else v # uniqLoop (insert v seen) vs)"

definition IPList_Uniq :: "IPList \<Rightarrow> string list" where
  "IPList_Uniq l = uniqLoop {} (ipValues l)"

datatype fatal = Fatal string

text \<open>
  \<^verbatim>\<open>main\<close> up to the construction of the selector: \<^verbatim>\<open>logger.Fatal\<close> ends
  the process.
\<close>

definition mainNameservers :: "int \<Rightarrow> int \<Rightarrow> IPList \<Rightarrow> string \<Rightarrow> fatal + RoundRobin" where
  "mainNameservers flagTCP flagUDP flagNameservers flagTLSServerName =
     (if flagTCP \<le> 0 \<and> flagUDP \<le> 0
      then Inl (Fatal ''at least one port for TCP or UDP must be specified'')
      else let uniqListOfNameservers = IPList_Uniq flagNameservers in
        if length uniqListOfNameservers < 1
        then Inl (Fatal ''at least one nameserver required!'')
        else let upstreamPort = (if length flagTLSServerName > 0 then '':853'' else '':53'')
             in Inr (RoundRobin_New (map (\<lambda>val. val @ upstreamPort) uniqListOfNameservers)))"

section \<open>The query dispatcher (package dnsqueryhandler)\<close>

text \<open>
  The parts of a DNS message the handler reads or writes. The constants are those of
  the DNS protocol (RFC 1035, RFC 3596), as the DNS library names them.
\<close>

definition RcodeSuccess :: int where "RcodeSuccess = 0"
definition RcodeServerFailure :: int where "RcodeServerFailure = 2"
definition RcodeNameError :: int where "RcodeNameError = 3"
definition RcodeRefused :: int where "RcodeRefused = 5"
definition OpcodeQuery :: int where "OpcodeQuery = 0"
definition ClassINET :: "16 word" where "ClassINET = 1"
definition TypeA :: "16 word" where "TypeA = 1"
definition TypeAAAA :: "16 word" where "TypeAAAA = 28"

record Question =
  Name :: string
  Qtype :: "16 word"
  Qclass :: "16 word"

text \<open>
  \<^verbatim>\<open>dns.RR_Header\<close>; the handler sets the name, the type and the class, and leaves
  the other fields zero. The field \<^verbatim>\<open>Name\<close> of the header is \<open>HdrName\<close> here.
\<close>

record RR_Header =
  HdrName :: string
  Rrtype :: "16 word"
  Class :: "16 word"

type_synonym IP = "8 word list"

text \<open>
  \<^verbatim>\<open>net.IPv4zero\<close> is \<^verbatim>\<open>net.IPv4(0, 0, 0, 0)\<close>, the 16-byte form of 0.0.0.0;
  \<^verbatim>\<open>net.IPv6zero\<close> is 16 zero bytes.
\<close>

definition IPv4zero :: IP where
  "IPv4zero = [0, 0, 0, 0, 0, 0, 0, 0, 0, 0, 255, 255, 0, 0, 0, 0]"

definition IPv6zero :: IP where
  "IPv6zero = [0, 0, 0, 0, 0, 0, 0, 0, 0, 0, 0, 0, 0, 0, 0, 0]"

text \<open>
  A resource record: \<^verbatim>\<open>*dns.A\<close>, \<^verbatim>\<open>*dns.AAAA\<close>, or any other record an
  upstream server may send (relayed as it is).
\<close>

datatype RR = A RR_Header IP | AAAA RR_Header IP | OtherRR RR_Header string

record Msg =
  Id :: "16 word"
  Response :: bool
  Opcode :: int
  RecursionDesired :: bool
  CheckingDisabled :: bool
  Rcode :: int
  Question :: "Question list"
  Answer :: "RR list"

text \<open>\<^verbatim>\<open>&dns.Msg{}\<close>: every field zero.\<close>

definition zeroMsg :: Msg where
  "zeroMsg = \<lparr>Id = 0, Response = False, Opcode = 0, RecursionDesired = False,
     CheckingDisabled = False, Rcode = 0, Question = [], Answer = []\<rparr>"

text \<open>
  Modelled from the spec: \<^verbatim>\<open>Msg.SetReply\<close> and \<^verbatim>\<open>Msg.SetRcode\<close> are methods of
  the DNS library, whose code is not part of the repository. The spec has the reply
  "addressed back to the original query" and an error reply carry a "response code";
  as the library documents them, \<^verbatim>\<open>SetReply\<close> copies the identifier, the opcode,
  the recursion-desired and checking-disabled bits (of a standard query) and the first
  question of the request, marks the message a response with code success, and
  \<^verbatim>\<open>SetRcode(request, rcode)\<close> is \<^verbatim>\<open>SetReply(request)\<close> followed by storing
  \<^verbatim>\<open>rcode\<close>.
\<close>

definition SetReply :: "Msg \<Rightarrow> Msg \<Rightarrow> Msg" where
  "SetReply m request =
     (let m1 = m\<lparr>Id := Id request, Response := True, Opcode := Opcode request\<rparr>;
          m2 = (if Opcode m1 = OpcodeQuery
                then m1\<lparr>RecursionDesired := RecursionDesired request,
                        CheckingDisabled := CheckingDisabled request\<rparr>
                else m1);
          m3 = m2\<lparr>Rcode := RcodeSuccess\<rparr>
      in (case Question request of [] \<Rightarrow> m3 | q # _ \<Rightarrow> m3\<lparr>Question := [q]\<rparr>))"

definition SetRcode :: "Msg \<Rightarrow> Msg \<Rightarrow> int \<Rightarrow> Msg" where
  "SetRcode m request rcode = (SetReply m request)\<lparr>Rcode := rcode\<rparr>"

text \<open>
  \<^verbatim>\<open>generateRequestID\<close>: the argument is what reading 16 bytes of
  \<^verbatim>\<open>crypto/rand\<close> gave, the error or the bytes in hexadecimal.
\<close>

definition generateRequestID :: "error + string \<Rightarrow> string \<times> error option" where
  "generateRequestID rnd =
     (case rnd of
        Inl err \<Rightarrow> (concat (replicate 16 ''00''), Some (ReadingRandom err))
      | Inr hex \<Rightarrow> (hex, None))"

definition isValidQtype :: "16 word \<Rightarrow> bool" where
  "isValidQtype qtype = (if qtype = TypeA \<or> qtype = TypeAAAA then True else False)"

text \<open>
  \<^verbatim>\<open>writeAnswer\<close> and \<^verbatim>\<open>writeErr\<close> give the message handed to
  \<^verbatim>\<open>w.WriteMsg\<close>. \<^verbatim>\<open>writeErr\<close> takes the parameter \<^verbatim>\<open>code\<close> and passes
  \<^verbatim>\<open>dns.RcodeNameError\<close> to \<^verbatim>\<open>SetRcode\<close>.
\<close>

definition writeAnswer :: "Msg \<Rightarrow> RR list \<Rightarrow> Msg" where
  "writeAnswer r ans = SetReply (zeroMsg\<lparr>Answer := ans\<rparr>) r"

definition writeErr :: "Msg \<Rightarrow> int \<Rightarrow> Msg" where
  "writeErr r code = SetRcode zeroMsg r RcodeNameError"

text \<open>\<^verbatim>\<open>func generateBlockedAnswer(fqdn string, qclass uint16, qtype uint16) dns.RR\<close>\<close>

definition generateBlockedAnswer :: "string \<Rightarrow> 16 word \<Rightarrow> 16 word \<Rightarrow> RR" where
  "generateBlockedAnswer fqdn qclass qtype =
     (let hdr = \<lparr>HdrName = fqdn, Rrtype = qtype, Class = qclass\<rparr> in
      if qtype = TypeA then A hdr IPv4zero
      else if qtype = TypeAAAA then AAAA hdr IPv6zero
      else A hdr IPv4zero)"

text \<open>
  The handler and its collaborators: the exchanger (the upstream round trip, giving the
  response or an error), the chooser and the block list's \<^verbatim>\<open>Contains\<close>. The
  logger writes log lines only and is left out, with the remote address it logs.
\<close>

record DNSQueryHandler =
  exchanger :: "Msg \<Rightarrow> string \<Rightarrow> error + Msg"
  nameservers :: RoundRobin
  blocklist :: "string \<Rightarrow> bool"

text \<open>
  What one call of the handler does: the messages written to the client, the upstream
  exchanges made (query and address), and the chooser as the call leaves it.
\<close>

record outcome =
  written :: "Msg list"
  exchanges :: "(Msg \<times> string) list"
  chooser :: RoundRobin

text \<open>
  \<^verbatim>\<open>HandleAandAAAA\<close>. \<open>rnd\<close> is the random source read by
  \<^verbatim>\<open>generateRequestID\<close>, \<open>newId\<close> the value of \<^verbatim>\<open>dns.Id()\<close>. A panic of
  \<^verbatim>\<open>Next\<close> leaves the handler.
\<close>

definition HandleAandAAAA ::
    "DNSQueryHandler \<Rightarrow> error + string \<Rightarrow> 16 word \<Rightarrow> Msg \<Rightarrow> panic + outcome" where
  "HandleAandAAAA s rnd newId r =
     (case generateRequestID rnd of
        (reqID, Some err) \<Rightarrow>
          Inr \<lparr>written = [writeErr r RcodeServerFailure], exchanges = [],
               chooser = nameservers s\<rparr>
      | (reqID, None) \<Rightarrow>
          (case Question r of
             [] \<Rightarrow>
               Inr \<lparr>written = [writeErr r RcodeRefused], exchanges = [],
                    chooser = nameservers s\<rparr>
           | q # _ \<Rightarrow>
               (let fqdn = Fqdn (Name q) in
                if Qclass q \<noteq> ClassINET
                then Inr \<lparr>written = [writeErr r RcodeRefused], exchanges = [],
                          chooser = nameservers s\<rparr>
                else if \<not> isValidQtype (Qtype q)
                then Inr \<lparr>written = [writeErr r RcodeRefused], exchanges = [],
                          chooser = nameservers s\<rparr>
                else if blocklist s fqdn
                then Inr \<lparr>written =
                            [writeAnswer r [generateBlockedAnswer fqdn (Qtype q) (Qclass q)]],
                          exchanges = [], chooser = nameservers s\<rparr>
                else
                  (case RoundRobin_Next (nameservers s) of
                     Inl p \<Rightarrow> Inl p
                   | Inr (nameserver, rr) \<Rightarrow>
                       (let uquery = zeroMsg\<lparr>Id := newId,
                              RecursionDesired := RecursionDesired r,
                              Opcode := OpcodeQuery,
                              Question := [\<lparr>Name = fqdn, Qtype = Qtype q, Qclass = Qclass q\<rparr>]\<rparr>
                        in (case exchanger s uquery nameserver of
                              Inl err \<Rightarrow>
                                Inr \<lparr>written = [writeErr r RcodeServerFailure],
                                     exchanges = [(uquery, nameserver)], chooser = rr\<rparr>
                            | Inr ures \<Rightarrow>
                                if Id uquery \<noteq> Id ures
                                then Inr \<lparr>written = [writeErr r RcodeServerFailure],
                                          exchanges = [(uquery, nameserver)], chooser = rr\<rparr>
                                else if length (Answer ures) < 1
                                then Inr \<lparr>written = [writeErr r RcodeNameError],
                                          exchanges = [(uquery, nameserver)], chooser = rr\<rparr>
                                else Inr \<lparr>written = [writeAnswer r (Answer ures)],
                                          exchanges = [(uquery, nameserver)],
                                          chooser = rr\<rparr>))))))"

section \<open>Notions used to state the properties\<close>

text \<open>Inserting a list of patterns one after the other, errors ignored as \<^verbatim>\<open>Load\<close> does.\<close>

definition insertAll :: "GlobTrie \<Rightarrow> string list \<Rightarrow> GlobTrie" where
  "insertAll lm ps = foldl (\<lambda>t p. fst (GlobTrie_Insert t p)) lm ps"

text \<open>A chain of children with the given labels starts at the node.\<close>

fun hasPath :: "string list \<Rightarrow> node \<Rightarrow> bool" where
  "hasPath [] n = True"
| "hasPath (label # rest) n =
     (case children n label of None \<Rightarrow> False | Some c \<Rightarrow> hasPath rest c)"

text \<open>The chain \<^verbatim>\<open>Insert\<close> walks for a pattern: its labels from the last to the first, then the marker.\<close>

definition patternPath :: "string \<Rightarrow> string list" where
  "patternPath s = rev (''!'' # SplitDomainName (ToLower s))"

text \<open>
  The lines of a block-list source by what \<^verbatim>\<open>Load\<close> does with them: a legal
  name without \<^verbatim>\<open>*\<close> goes to the exact-name set, a legal name with \<^verbatim>\<open>*\<close>
  to the trie, where the insertion may still fail.
\<close>

definition lineExact :: "string \<Rightarrow> bool" where
  "lineExact l = (IsDomainName l \<and> CHR ''*'' \<notin> set (CanonicalName l))"

definition lineGlob :: "string \<Rightarrow> bool" where
  "lineGlob l =
     (IsDomainName l \<and> CHR ''*'' \<in> set (CanonicalName l)
      \<and> snd (GlobTrie_Insert GlobTrie_New (CanonicalName l)) = None)"

definition lineInserted :: "string \<Rightarrow> bool" where
  "lineInserted l = (lineExact l \<or> lineGlob l)"

text \<open>
  A label a concrete query name can carry at one position: of legal length, of ASCII
  bytes, and free of the separator, the terminal marker and the wildcard character.
\<close>

definition plainLabel :: "string \<Rightarrow> bool" where
  "plainLabel l =
     (legalLabel l \<and> asciiName l
      \<and> CHR ''.'' \<notin> set l \<and> CHR ''!'' \<notin> set l \<and> CHR ''*'' \<notin> set l)"

text \<open>The response codes of the messages a call of the handler wrote.\<close>

definition rcodesWritten :: "panic + outcome \<Rightarrow> int list" where
  "rcodesWritten x = (case x of Inl p \<Rightarrow> [] | Inr out \<Rightarrow> map Rcode (written out))"

section \<open>Evaluation\<close>

lemmas dns_defs = ToLower_def toLowerByte_def IsDomainName_def Fqdn_def IsFqdn_def
  SplitDomainName_def legalLabel_def wireLength_def CanonicalName_def char_of_def bit_Suc_0_iff

lemmas trie_defs = GlobTrie_Contains_def GlobTrie_Insert_def GlobTrie_New_def emptyNode_def
  insertAll_def Let_def

lemmas blocklist_defs = Blocklist_Contains_def Blocklist_Load_def loadLine_def
  Blocklist_Empty_def StringSet_New_def StringSet_Insert_def StringSet_Contains_def

lemmas handler_defs = HandleAandAAAA_def generateRequestID_def writeErr_def writeAnswer_def
  SetRcode_def SetReply_def zeroMsg_def isValidQtype_def generateBlockedAnswer_def
  RcodeNameError_def RcodeRefused_def RcodeServerFailure_def RcodeSuccess_def OpcodeQuery_def
  ClassINET_def TypeA_def TypeAAAA_def rcodesWritten_def

lemma ToLower_alphabet:
  "ToLower ''ABCDEFGHIJKLMNOPQRSTUVWXYZ'' = ''abcdefghijklmnopqrstuvwxyz''"
  "ToLower ''abcdefghijklmnopqrstuvwxyz0123456789-.*!@[`{'' = ''abcdefghijklmnopqrstuvwxyz0123456789-.*!@[`{''"
  by (simp_all add: dns_defs)

section \<open>The round-robin selector\<close>

lemma Next_in_range:
  assumes lt: "i < length ss"
  shows "RoundRobin_Next \<lparr>list = ss, idx = int i\<rparr>
           = Inr (ss ! i, \<lparr>list = ss, idx = int (Suc i mod length ss)\<rparr>)"
proof -
  have "(int i + 1) mod int (length ss) = int (Suc i mod length ss)"
    by (simp add: zmod_int add.commute)
  with lt show ?thesis
    by (simp add: RoundRobin_Next_def)
qed

lemma callNext_from:
  "i < length ss \<Longrightarrow>
   callNext n \<lparr>list = ss, idx = int i\<rparr>
     = Inr (map (\<lambda>k. ss ! ((i + k) mod length ss)) [0..<n],
            \<lparr>list = ss, idx = int ((i + n) mod length ss)\<rparr>)"
proof (induction n arbitrary: i)
  case 0
  then show ?case by simp
next
  case (Suc n)
  let ?len = "length ss"
  have pos: "0 < ?len" using Suc.prems by (cases ss) simp_all
  then have lt: "Suc i mod ?len < ?len" by simp
  have step: "(Suc i mod ?len + k) mod ?len = (i + Suc k) mod ?len" for k
    by (simp add: mod_add_left_eq)
  have upt: "[0..<Suc n] = 0 # map Suc [0..<n]"
    by (simp add: upt_conv_Cons map_Suc_upt del: upt_Suc)
  show ?case
    using Suc.prems
    by (simp add: Next_in_range Suc.IH [OF lt] step upt o_def del: upt_Suc)
qed

lemma first_cycle: "map (\<lambda>k. ss ! (k mod length ss)) [0..<length ss] = ss"
proof -
  have "map (\<lambda>k. ss ! (k mod length ss)) [0..<length ss] = map ((!) ss) [0..<length ss]"
    by (rule map_cong) simp_all
  then show ?thesis
    by (simp add: map_nth)
qed

lemma uniqLoop_Nil: "uniqLoop seen vs = [] \<longleftrightarrow> set vs \<subseteq> seen"
  by (induction seen vs rule: uniqLoop.induct) auto

text \<open>
  C7, as the code has it. The claim says that constructing the selector from an empty
  address sequence fails. \<^verbatim>\<open>New\<close> has no error result and no check: on the empty
  sequence it returns a selector, and the first \<^verbatim>\<open>Next()\<close> on that selector
  panics with an index out of range.
\<close>

theorem RoundRobin_New_empty_is_deferred:
  "RoundRobin_Next (RoundRobin_New []) = Inl IndexOutOfRange"
  by (simp add: RoundRobin_Next_def RoundRobin_New_def)

text \<open>
  C7, amended. \<^verbatim>\<open>New\<close> accepts every address sequence and returns the selector
  holding a copy of it with the cursor at 0. The first \<^verbatim>\<open>Next()\<close> panics exactly
  when the sequence was empty, and returns the first address otherwise. The empty case
  is rejected before construction by the caller: \<^verbatim>\<open>main\<close> ends the process when
  no port is given or the deduplicated name-server list is empty, so the selector
  \<^verbatim>\<open>main\<close> builds is never empty and \<^verbatim>\<open>Next()\<close> on it does not panic.
\<close>

theorem RoundRobin_New_total_guard_in_main:
  "RoundRobin_New ss = \<lparr>list = ss, idx = 0\<rparr>
   \<and> (RoundRobin_Next (RoundRobin_New ss) = Inl IndexOutOfRange \<longleftrightarrow> ss = [])
   \<and> (ss \<noteq> [] \<longrightarrow>
        RoundRobin_Next (RoundRobin_New ss)
          = Inr (ss ! 0, \<lparr>list = ss, idx = 1 mod int (length ss)\<rparr>))
   \<and> ((\<exists>f. mainNameservers flagTCP flagUDP l tls = Inl f)
        \<longleftrightarrow> (flagTCP \<le> 0 \<and> flagUDP \<le> 0) \<or> ipValues l = [])
   \<and> (mainNameservers flagTCP flagUDP l tls = Inr r \<longrightarrow>
        list r \<noteq> [] \<and> RoundRobin_Next r \<noteq> Inl IndexOutOfRange)"
  by (auto simp: RoundRobin_New_def RoundRobin_Next_def mainNameservers_def Let_def
        IPList_Uniq_def uniqLoop_Nil split: if_splits)

theorem RoundRobin_New_total_guard_in_main_witness:
  "mainNameservers 0 53 \<lparr>ipValues = [''1.1.1.1'', ''1.0.0.1'', ''1.1.1.1'']\<rparr> []
     = Inr (RoundRobin_New [''1.1.1.1:53'', ''1.0.0.1:53''])
   \<and> RoundRobin_Next (RoundRobin_New [''1.1.1.1:53'', ''1.0.0.1:53''])
       = Inr (''1.1.1.1:53'', \<lparr>list = [''1.1.1.1:53'', ''1.0.0.1:53''], idx = 1\<rparr>)
   \<and> RoundRobin_Next (RoundRobin_New [''1.1.1.1:53'', ''1.0.0.1:53'']) \<noteq> Inl IndexOutOfRange"
  using RoundRobin_New_total_guard_in_main
    [of "[''1.1.1.1:53'', ''1.0.0.1:53'']" 0 53
        "\<lparr>ipValues = [''1.1.1.1'', ''1.0.0.1'', ''1.1.1.1'']\<rparr>" "[]"
        "RoundRobin_New [''1.1.1.1:53'', ''1.0.0.1:53'']"]
  by (simp add: mainNameservers_def IPList_Uniq_def Let_def RoundRobin_New_def)

text \<open>
  C8. For a selector built from a non-empty address list \<open>ss\<close>, \<open>n\<close> calls of
  \<^verbatim>\<open>Next()\<close> one after the other return the addresses at the indices
  \<open>0 mod length ss, 1 mod length ss, ..., (n - 1) mod length ss\<close>, and leave the cursor at
  \<open>n mod length ss\<close>: the call number \<open>k\<close> (from 0) returns \<open>ss ! (k mod length ss)\<close>.
  The first \<open>length ss\<close> calls return the list itself, every address once and in
  order, and bring the selector back to its first state.
\<close>

theorem RoundRobin_Next_cyclic:
  assumes "ss \<noteq> []"
  shows "callNext n (RoundRobin_New ss)
           = Inr (map (\<lambda>k. ss ! (k mod length ss)) [0..<n],
                  \<lparr>list = ss, idx = int (n mod length ss)\<rparr>)
         \<and> callNext (length ss) (RoundRobin_New ss) = Inr (ss, RoundRobin_New ss)"
  using assms callNext_from [of 0 ss n] callNext_from [of 0 ss "length ss"]
  by (simp add: RoundRobin_New_def first_cycle)

theorem RoundRobin_Next_cyclic_witness:
  "callNext 7 (RoundRobin_New [''A'', ''B'', ''C''])
     = Inr ([''A'', ''B'', ''C'', ''A'', ''B'', ''C'', ''A''],
            \<lparr>list = [''A'', ''B'', ''C''], idx = 1\<rparr>)
   \<and> callNext 3 (RoundRobin_New [''A'', ''B'', ''C''])
     = Inr ([''A'', ''B'', ''C''], RoundRobin_New [''A'', ''B'', ''C''])"
proof -
  have ne: "[''A'', ''B'', ''C''] \<noteq> []" by simp
  have "callNext 7 (RoundRobin_New [''A'', ''B'', ''C''])
          = Inr ([''A'', ''B'', ''C'', ''A'', ''B'', ''C'', ''A''],
                 \<lparr>list = [''A'', ''B'', ''C''], idx = 1\<rparr>)"
    using RoundRobin_Next_cyclic [OF ne, of 7, THEN conjunct1] by (simp add: upt_rec)
  moreover have "callNext 3 (RoundRobin_New [''A'', ''B'', ''C''])
          = Inr ([''A'', ''B'', ''C''], RoundRobin_New [''A'', ''B'', ''C''])"
    using RoundRobin_Next_cyclic [OF ne, of 3, THEN conjunct1]
    by (simp add: upt_rec RoundRobin_New_def)
  ultimately show ?thesis by simp
qed

section \<open>Lower-casing and splitting\<close>

text \<open>
  Facts about the byte map \<open>ToLower\<close>. They describe \<^verbatim>\<open>strings.ToLower\<close> on ASCII
  strings; the properties below that relate a name as written to its lower-cased form
  carry the hypothesis \<open>asciiName\<close> where they are stated for the code.
\<close>

lemma toLowerByte_idem: "toLowerByte (toLowerByte c) = toLowerByte c"
  by (simp add: toLowerByte_def)

lemma ToLower_idem: "ToLower (ToLower s) = ToLower s"
  by (simp add: ToLower_def toLowerByte_idem)

lemma of_char_toLowerByte:
  "(of_char (toLowerByte c) :: nat) =
     (if 65 \<le> (of_char c :: nat) \<and> (of_char c :: nat) \<le> 90 then of_char c + 32 else of_char c)"
  by (simp add: toLowerByte_def)

lemma toLowerByte_eq_iff:
  assumes "(of_char d :: nat) < 65"
  shows "toLowerByte c = d \<longleftrightarrow> c = d"
proof
  assume "toLowerByte c = d"
  then have "(of_char (toLowerByte c) :: nat) = of_char d" by simp
  with assms have "(of_char c :: nat) = of_char d"
    by (simp add: of_char_toLowerByte split: if_splits)
  then show "c = d" by simp
next
  assume "c = d"
  with assms show "toLowerByte c = d" by (simp add: toLowerByte_def)
qed

lemma toLowerByte_dot [simp]: "toLowerByte c = CHR ''.'' \<longleftrightarrow> c = CHR ''.''"
  by (rule toLowerByte_eq_iff) simp

lemma toLowerByte_bang [simp]: "toLowerByte c = CHR ''!'' \<longleftrightarrow> c = CHR ''!''"
  by (rule toLowerByte_eq_iff) simp

lemma toLowerByte_star [simp]: "toLowerByte c = CHR ''*'' \<longleftrightarrow> c = CHR ''*''"
  by (rule toLowerByte_eq_iff) simp

lemma bang_in_ToLower [simp]: "CHR ''!'' \<in> set (ToLower s) \<longleftrightarrow> CHR ''!'' \<in> set s"
  using toLowerByte_bang by (induction s) (auto simp: ToLower_def eq_commute [of "CHR ''!''"])

lemma star_in_ToLower [simp]: "CHR ''*'' \<in> set (ToLower s) \<longleftrightarrow> CHR ''*'' \<in> set s"
  using toLowerByte_star by (induction s) (auto simp: ToLower_def eq_commute [of "CHR ''*''"])

lemma splitDots_map:
  "splitDots (map toLowerByte acc) (map toLowerByte cs) = map (map toLowerByte) (splitDots acc cs)"
proof (induction cs arbitrary: acc)
  case Nil
  show ?case by (simp add: rev_map)
next
  case (Cons c cs)
  from Cons [of "c # acc"] Cons [of "[]"] show ?case
    by (simp add: rev_map)
qed

lemma IsFqdn_ToLower [simp]: "IsFqdn (ToLower s) = IsFqdn s"
  by (cases s rule: rev_cases) (simp_all add: IsFqdn_def ToLower_def)

lemma ToLower_eq_dot [simp]: "ToLower s = ''.'' \<longleftrightarrow> s = ''.''"
  by (cases s) (auto simp: ToLower_def)

lemma ToLower_eq_Nil [simp]: "ToLower s = [] \<longleftrightarrow> s = []"
  by (simp add: ToLower_def)

lemma Split_ToLower: "SplitDomainName (ToLower s) = map ToLower (SplitDomainName s)"
proof -
  have "splitDots [] (map toLowerByte cs) = map (map toLowerByte) (splitDots [] cs)" for cs
    using splitDots_map [of "[]" cs] by simp
  then have *: "splitDots [] (ToLower cs) = map ToLower (splitDots [] cs)" for cs
    by (simp add: ToLower_def [abs_def])
  have "butlast (ToLower s) = ToLower (butlast s)"
    by (simp add: ToLower_def map_butlast)
  then show ?thesis
    by (simp add: SplitDomainName_def *)
qed

lemma Fqdn_ToLower: "Fqdn (ToLower s) = ToLower (Fqdn s)"
  by (simp add: Fqdn_def) (simp add: ToLower_def toLowerByte_def)

lemma Split_Fqdn: "s \<noteq> [] \<Longrightarrow> SplitDomainName (Fqdn s) = SplitDomainName s"
  by (auto simp: SplitDomainName_def Fqdn_def IsFqdn_def split: list.splits)

lemma long_label_illegal:
  assumes "l \<in> set (SplitDomainName s)" "63 < length l"
  shows "\<not> IsDomainName s"
proof -
  from assms(1) have ne: "s \<noteq> []" "s \<noteq> ''.''"
    by (auto simp: SplitDomainName_def)
  then have "Fqdn s \<noteq> ''.''"
    by (auto simp: Fqdn_def IsFqdn_def split: if_splits)
  moreover have "\<not> list_all legalLabel (SplitDomainName (Fqdn s))"
    using assms ne by (auto simp: Split_Fqdn list_all_iff legalLabel_def intro!: bexI [of _ l])
  ultimately show ?thesis
    by (simp add: IsDomainName_def)
qed

lemma IsDomainName_ToLower: "IsDomainName (ToLower s) = IsDomainName s"
proof -
  have "list_all legalLabel (map ToLower ls) = list_all legalLabel ls" for ls
    by (simp add: list_all_iff legalLabel_def ToLower_def)
  moreover have "wireLength (map ToLower ls) = wireLength ls" for ls
    by (simp add: wireLength_def ToLower_def o_def)
  ultimately show ?thesis
    by (simp add: IsDomainName_def Fqdn_ToLower Split_ToLower)
qed

lemma Contains_ToLower: "GlobTrie_Contains lm (ToLower n) = GlobTrie_Contains lm n"
  by (simp add: GlobTrie_Contains_def ToLower_idem)

section \<open>The label trie\<close>

lemma insertLabels_present: "hasPath p n \<Longrightarrow> insertLabels p n = n"
proof (induction p arbitrary: n)
  case Nil
  then show ?case by simp
next
  case (Cons l ls)
  then obtain c where c: "children n l = Some c" "hasPath ls c"
    by (auto split: option.splits)
  then have "insertLabels ls c = c" using Cons.IH by simp
  with c show ?case by (cases n) (simp add: map_upd_triv)
qed

lemma hasPath_insertLabels_same: "hasPath p (insertLabels p n)"
  by (induction p arbitrary: n) (simp_all add: Let_def)

lemma hasPath_insertLabels_mono: "hasPath p n \<Longrightarrow> hasPath p (insertLabels q n)"
proof (induction q arbitrary: p n)
  case Nil
  then show ?case by simp
next
  case (Cons l q)
  show ?case
  proof (cases p)
    case Nil
    then show ?thesis by simp
  next
    case (Cons l' p')
    with Cons.prems obtain c where c: "children n l' = Some c" "hasPath p' c"
      by (auto split: option.splits)
    show ?thesis
    proof (cases "l' = l")
      case True
      with c Cons Cons.IH [of p' c] show ?thesis by (simp add: Let_def)
    next
      case False
      with c Cons show ?thesis by (simp add: Let_def)
    qed
  qed
qed

lemma Insert_error_iff:
  "snd (GlobTrie_Insert lm s) \<noteq> None \<longleftrightarrow>
     \<not> IsDomainName (ToLower s) \<or> CHR ''!'' \<in> set (ToLower s)
     \<or> length (SplitDomainName (ToLower s)) < 2"
  by (simp add: GlobTrie_Insert_def Let_def)

lemma Insert_error_unchanged:
  "snd (GlobTrie_Insert lm s) \<noteq> None \<Longrightarrow> fst (GlobTrie_Insert lm s) = lm"
  by (auto simp: GlobTrie_Insert_def Let_def split: if_splits)

lemma Insert_error_indep: "snd (GlobTrie_Insert lm s) = snd (GlobTrie_Insert lm' s)"
  by (simp add: GlobTrie_Insert_def Let_def)

lemma Insert_root:
  "snd (GlobTrie_Insert lm s) = None \<Longrightarrow>
   root (fst (GlobTrie_Insert lm s)) = insertLabels (patternPath s) (root lm)"
  by (auto simp: GlobTrie_Insert_def Let_def patternPath_def split: if_splits)

lemma Insert_root_mono:
  "hasPath p (root lm) \<Longrightarrow> hasPath p (root (fst (GlobTrie_Insert lm s)))"
  by (cases "snd (GlobTrie_Insert lm s)")
     (simp_all add: Insert_root hasPath_insertLabels_mono Insert_error_unchanged)

lemma insertAll_mono:
  "hasPath p (root lm) \<Longrightarrow> hasPath p (root (insertAll lm ps))"
  unfolding insertAll_def
  by (induction ps arbitrary: lm) (simp_all add: Insert_root_mono)

lemma Insert_present:
  assumes ok: "snd (GlobTrie_Insert lm0 s) = None" and p: "hasPath (patternPath s) (root lm)"
  shows "GlobTrie_Insert lm s = (lm, None)"
proof -
  have "snd (GlobTrie_Insert lm s) = None" using ok Insert_error_indep [of lm s lm0] by simp
  moreover from this have "root (fst (GlobTrie_Insert lm s)) = root lm"
    using p by (simp add: Insert_root insertLabels_present)
  then have "fst (GlobTrie_Insert lm s) = lm"
    by (auto simp: GlobTrie_Insert_def Let_def split: if_splits)
  ultimately show ?thesis by (simp add: prod_eq_iff)
qed

lemma Insert_again:
  assumes ok: "snd (GlobTrie_Insert lm s) = None"
  shows "GlobTrie_Insert (insertAll (fst (GlobTrie_Insert lm s)) ps) s
           = (insertAll (fst (GlobTrie_Insert lm s)) ps, None)"
proof (rule Insert_present [OF ok])
  have "hasPath (patternPath s) (root (fst (GlobTrie_Insert lm s)))"
    using ok by (simp add: Insert_root hasPath_insertLabels_same)
  then show "hasPath (patternPath s) (root (insertAll (fst (GlobTrie_Insert lm s)) ps))"
    by (rule insertAll_mono)
qed

lemma Insert_long_label:
  assumes "l \<in> set (SplitDomainName (ToLower s))" "63 < length l"
  shows "snd (GlobTrie_Insert lm s) = Some InvalidDomain"
proof -
  have "\<not> IsDomainName (ToLower s)" using assms by (rule long_label_illegal)
  then show ?thesis
    by (simp add: GlobTrie_Insert_def)
qed

text \<open>For a pattern of ASCII bytes the three checks can be read on the pattern as written.\<close>

lemma Insert_error_iff_ascii:
  assumes "asciiName s"
  shows "snd (GlobTrie_Insert lm s) \<noteq> None \<longleftrightarrow>
     \<not> IsDomainName s \<or> CHR ''!'' \<in> set s \<or> length (SplitDomainName s) < 2"
  unfolding Insert_error_iff by (simp add: IsDomainName_ToLower Split_ToLower)

lemma Insert_long_label_ascii:
  assumes "asciiName s" "l \<in> set (SplitDomainName s)" "63 < length l"
  shows "snd (GlobTrie_Insert lm s) = Some InvalidDomain"
proof -
  from assms(2) have "ToLower l \<in> set (SplitDomainName (ToLower s))"
    by (simp add: Split_ToLower)
  moreover from assms(3) have "63 < length (ToLower l)"
    by (simp add: ToLower_def)
  ultimately show ?thesis by (rule Insert_long_label)
qed

text \<open>
  C9, as the code has it. The claim says that \<^verbatim>\<open>Insert\<close> returns an error exactly
  when a label is longer than 63 characters, the name has fewer than two labels, or the
  pattern contains \<^verbatim>\<open>!\<close>. The name \<^verbatim>\<open>a..com\<close> has three labels, none longer
  than 63, and no \<^verbatim>\<open>!\<close>; \<^verbatim>\<open>Insert\<close> rejects it, because its empty label makes
  it an illegal domain name.
\<close>

theorem GlobTrie_Insert_rejects_empty_label:
  "GlobTrie_Insert GlobTrie_New ''a..com'' = (GlobTrie_New, Some InvalidDomain)
   \<and> SplitDomainName ''a..com'' = [''a'', [], ''com'']
   \<and> CHR ''!'' \<notin> set ''a..com''"
  by (simp add: dns_defs trie_defs)

text \<open>
  C9, amended. \<^verbatim>\<open>Insert\<close> returns an error exactly when the lower-cased pattern
  is not a legal domain name, contains \<^verbatim>\<open>!\<close>, or has fewer than two labels; a
  label of the lower-cased pattern longer than 63 characters makes the name illegal (as
  an empty label does). For a pattern of ASCII bytes the same holds of the pattern as
  written. When \<^verbatim>\<open>Insert\<close> returns an error the trie is unchanged. When it returns
  no error, inserting the same pattern again, at once or after any further insertions
  \<open>ps\<close>, returns no error and leaves the trie as it was, hence \<^verbatim>\<open>Contains\<close> as
  well.
\<close>

theorem GlobTrie_Insert_errors_and_idempotent:
  "(snd (GlobTrie_Insert lm s) \<noteq> None \<longleftrightarrow>
      \<not> IsDomainName (ToLower s) \<or> CHR ''!'' \<in> set (ToLower s)
      \<or> length (SplitDomainName (ToLower s)) < 2)
   \<and> ((\<exists>l \<in> set (SplitDomainName (ToLower s)). 63 < length l) \<longrightarrow>
        snd (GlobTrie_Insert lm s) = Some InvalidDomain)
   \<and> (asciiName s \<longrightarrow>
        (snd (GlobTrie_Insert lm s) \<noteq> None \<longleftrightarrow>
           \<not> IsDomainName s \<or> CHR ''!'' \<in> set s \<or> length (SplitDomainName s) < 2)
        \<and> ((\<exists>l \<in> set (SplitDomainName s). 63 < length l) \<longrightarrow>
             snd (GlobTrie_Insert lm s) = Some InvalidDomain))
   \<and> (snd (GlobTrie_Insert lm s) \<noteq> None \<longrightarrow> fst (GlobTrie_Insert lm s) = lm)
   \<and> (snd (GlobTrie_Insert lm s) = None \<longrightarrow>
        GlobTrie_Insert (insertAll (fst (GlobTrie_Insert lm s)) ps) s
          = (insertAll (fst (GlobTrie_Insert lm s)) ps, None)
        \<and> (\<forall>q. GlobTrie_Contains
                  (fst (GlobTrie_Insert (insertAll (fst (GlobTrie_Insert lm s)) ps) s)) q
                = GlobTrie_Contains (insertAll (fst (GlobTrie_Insert lm s)) ps) q))"
proof (intro conjI impI)
  show "snd (GlobTrie_Insert lm s) \<noteq> None \<longleftrightarrow>
      \<not> IsDomainName (ToLower s) \<or> CHR ''!'' \<in> set (ToLower s)
      \<or> length (SplitDomainName (ToLower s)) < 2"
    by (rule Insert_error_iff)
next
  assume "\<exists>l \<in> set (SplitDomainName (ToLower s)). 63 < length l"
  then show "snd (GlobTrie_Insert lm s) = Some InvalidDomain"
    by (auto intro: Insert_long_label)
next
  assume "asciiName s"
  then show "snd (GlobTrie_Insert lm s) \<noteq> None \<longleftrightarrow>
      \<not> IsDomainName s \<or> CHR ''!'' \<in> set s \<or> length (SplitDomainName s) < 2"
    by (rule Insert_error_iff_ascii)
next
  assume "asciiName s" "\<exists>l \<in> set (SplitDomainName s). 63 < length l"
  then show "snd (GlobTrie_Insert lm s) = Some InvalidDomain"
    by (auto intro: Insert_long_label_ascii)
next
  assume "snd (GlobTrie_Insert lm s) \<noteq> None"
  then show "fst (GlobTrie_Insert lm s) = lm"
    by (rule Insert_error_unchanged)
next
  assume ok: "snd (GlobTrie_Insert lm s) = None"
  then show again: "GlobTrie_Insert (insertAll (fst (GlobTrie_Insert lm s)) ps) s
          = (insertAll (fst (GlobTrie_Insert lm s)) ps, None)"
    by (rule Insert_again)
  show "\<forall>q. GlobTrie_Contains
                  (fst (GlobTrie_Insert (insertAll (fst (GlobTrie_Insert lm s)) ps) s)) q
                = GlobTrie_Contains (insertAll (fst (GlobTrie_Insert lm s)) ps) q"
    by (simp add: again)
qed

theorem GlobTrie_Insert_errors_and_idempotent_witness:
  "GlobTrie_Insert GlobTrie_New ''com'' = (GlobTrie_New, Some InvalidDomainLevels)
   \<and> snd (GlobTrie_Insert GlobTrie_New
        ''1234567890123456789012345678901234567890123456789012345678901234.example.com'')
       = Some InvalidDomain
   \<and> GlobTrie_Insert GlobTrie_New ''!example.com'' = (GlobTrie_New, Some InvalidDomainExclamation)
   \<and> snd (GlobTrie_Insert GlobTrie_New ''*.Example.COM'') = None
   \<and> GlobTrie_Insert
        (insertAll (fst (GlobTrie_Insert GlobTrie_New ''*.Example.COM'')) [''sub1.example.com''])
        ''*.Example.COM''
       = (insertAll (fst (GlobTrie_Insert GlobTrie_New ''*.Example.COM'')) [''sub1.example.com''],
          None)"
proof -
  note inst = GlobTrie_Insert_errors_and_idempotent
  have ascii: "asciiName ''com''"
    "asciiName ''1234567890123456789012345678901234567890123456789012345678901234.example.com''"
    by (simp_all add: asciiName_def)
  have levels: "length (SplitDomainName ''com'') < 2"
    by (simp add: dns_defs)
  have "snd (GlobTrie_Insert GlobTrie_New ''com'') \<noteq> None"
    using inst [of GlobTrie_New "''com''"] ascii(1) levels by blast
  then have "fst (GlobTrie_Insert GlobTrie_New ''com'') = GlobTrie_New"
    using inst [of GlobTrie_New "''com''"] by blast
  moreover have "snd (GlobTrie_Insert GlobTrie_New ''com'') = Some InvalidDomainLevels"
    by (simp add: dns_defs trie_defs)
  ultimately have a: "GlobTrie_Insert GlobTrie_New ''com'' = (GlobTrie_New, Some InvalidDomainLevels)"
    by (simp add: prod_eq_iff)
  have long: "\<exists>l \<in> set (SplitDomainName
      ''1234567890123456789012345678901234567890123456789012345678901234.example.com'').
      63 < length l"
    by (simp add: dns_defs)
  have b: "snd (GlobTrie_Insert GlobTrie_New
        ''1234567890123456789012345678901234567890123456789012345678901234.example.com'')
       = Some InvalidDomain"
    using inst [of GlobTrie_New
        "''1234567890123456789012345678901234567890123456789012345678901234.example.com''"]
      ascii(2) long
    by blast
  have c: "GlobTrie_Insert GlobTrie_New ''!example.com''
             = (GlobTrie_New, Some InvalidDomainExclamation)"
    by (simp add: dns_defs trie_defs)
  have legal: "\<not> (\<not> IsDomainName (ToLower ''*.Example.COM'')
      \<or> CHR ''!'' \<in> set (ToLower ''*.Example.COM'')
      \<or> length (SplitDomainName (ToLower ''*.Example.COM'')) < 2)"
    by (simp add: dns_defs)
  have d: "snd (GlobTrie_Insert GlobTrie_New ''*.Example.COM'') = None"
    using inst [of GlobTrie_New "''*.Example.COM''"] legal by blast
  have e: "GlobTrie_Insert
        (insertAll (fst (GlobTrie_Insert GlobTrie_New ''*.Example.COM'')) [''sub1.example.com''])
        ''*.Example.COM''
       = (insertAll (fst (GlobTrie_Insert GlobTrie_New ''*.Example.COM'')) [''sub1.example.com''],
          None)"
    using inst [of GlobTrie_New "''*.Example.COM''" "[''sub1.example.com'']"] d by blast
  from a b c d e show ?thesis by blast
qed

section \<open>The block list\<close>

lemma lineExact_not_lineGlob: "lineExact l \<Longrightarrow> \<not> lineGlob l"
  by (simp add: lineExact_def lineGlob_def)

lemma loadLine_eq:
  "loadLine (bl, c) l =
     (if lineExact l then (bl\<lparr>exact := insert (CanonicalName l) (exact bl)\<rparr>, c + 1)
      else if lineGlob l
      then (bl\<lparr>glob := fst (GlobTrie_Insert (glob bl) (CanonicalName l))\<rparr>, c + 1)
      else (bl, c))"
proof (cases "IsDomainName l \<and> CHR ''*'' \<in> set (CanonicalName l)")
  case False
  then show ?thesis
    by (auto simp: loadLine_def lineExact_def lineGlob_def StringSet_Insert_def Let_def)
next
  case True
  obtain g err where ins: "GlobTrie_Insert (glob bl) (CanonicalName l) = (g, err)"
    by (cases "GlobTrie_Insert (glob bl) (CanonicalName l)")
  have indep: "snd (GlobTrie_Insert GlobTrie_New (CanonicalName l)) = err"
    using Insert_error_indep [of GlobTrie_New "CanonicalName l" "glob bl"] ins by simp
  show ?thesis
  proof (cases err)
    case None
    with True ins indep show ?thesis
      by (simp add: loadLine_def lineExact_def lineGlob_def Let_def)
  next
    case (Some e)
    with ins have "g = glob bl"
      using Insert_error_unchanged [of "glob bl" "CanonicalName l"] by simp
    with True Some ins indep show ?thesis
      by (simp add: loadLine_def lineExact_def lineGlob_def Let_def)
  qed
qed

lemma loadLoop_eq:
  "loadLoop (bl, c) ls =
     (\<lparr>exact = exact bl \<union> set (map CanonicalName (filter lineExact ls)),
       glob = insertAll (glob bl) (map CanonicalName (filter lineGlob ls))\<rparr>,
      c + length (filter lineInserted ls))"
proof (induction ls arbitrary: bl c)
  case Nil
  show ?case by (simp add: insertAll_def)
next
  case (Cons l ls)
  show ?case
    by (simp add: loadLine_eq Cons.IH insertAll_def lineInserted_def lineExact_not_lineGlob)
qed

text \<open>
  C10. When the reader fails after the lines \<open>ls\<close> (the scanner reports the error
  \<open>e\<close>), \<^verbatim>\<open>Load\<close> returns a block list (not \<^verbatim>\<open>nil\<close>), the counter and the
  wrapped error. The block list holds exactly what the lines read were inserted as:
  the exact-name set is the set of the canonical names of the legal lines without
  \<^verbatim>\<open>*\<close>, the trie is the empty trie with the canonical names of the lines with
  \<^verbatim>\<open>*\<close> whose insertion succeeded, inserted in order. The counter is the number
  of lines inserted. Both are what a load of the same lines without a failure returns.
  The error is the reader's, wrapped, whatever the lines are: a line that fails
  validation or insertion adds nothing to it, and without a reader failure the error is
  \<^verbatim>\<open>nil\<close>.
\<close>

theorem Blocklist_Load_keeps_partial_state:
  "Blocklist_Load \<lparr>tokens = ls, scanErr = Some e\<rparr>
     = (Some \<lparr>exact = set (map CanonicalName (filter lineExact ls)),
              glob = insertAll GlobTrie_New (map CanonicalName (filter lineGlob ls))\<rparr>,
        length (filter lineInserted ls),
        Some (LoadingBlocklist e))
   \<and> Blocklist_Load \<lparr>tokens = ls, scanErr = None\<rparr>
     = (Some \<lparr>exact = set (map CanonicalName (filter lineExact ls)),
              glob = insertAll GlobTrie_New (map CanonicalName (filter lineGlob ls))\<rparr>,
        length (filter lineInserted ls),
        None)"
  by (simp add: Blocklist_Load_def loadLoop_eq Blocklist_Empty_def StringSet_New_def)

theorem Blocklist_Load_keeps_partial_state_witness:
  "Blocklist_Load
     \<lparr>tokens = [''ads.example.com'', ''bad..name'', ''*.Tracker.net'', ''*''],
      scanErr = Some (ReadError ''unexpected EOF'')\<rparr>
     = (Some \<lparr>exact = {''ads.example.com.''},
              glob = insertAll GlobTrie_New [''*.tracker.net.'']\<rparr>,
        2,
        Some (LoadingBlocklist (ReadError ''unexpected EOF'')))"
proof -
  have ex: "filter lineExact [''ads.example.com'', ''bad..name'', ''*.Tracker.net'', ''*'']
              = [''ads.example.com'']"
    by (simp add: lineExact_def dns_defs)
  have gl: "filter lineGlob [''ads.example.com'', ''bad..name'', ''*.Tracker.net'', ''*'']
              = [''*.Tracker.net'']"
    by (simp add: lineGlob_def dns_defs trie_defs)
  have ins: "filter lineInserted [''ads.example.com'', ''bad..name'', ''*.Tracker.net'', ''*'']
              = [''ads.example.com'', ''*.Tracker.net'']"
    by (simp add: lineInserted_def lineExact_def lineGlob_def dns_defs trie_defs)
  have cn: "CanonicalName ''ads.example.com'' = ''ads.example.com.''"
    "CanonicalName ''*.Tracker.net'' = ''*.tracker.net.''"
    by (simp_all add: dns_defs)
  note Blocklist_Load_keeps_partial_state
      [of "[''ads.example.com'', ''bad..name'', ''*.Tracker.net'', ''*'']"
          "ReadError ''unexpected EOF''", THEN conjunct1]
  then show ?thesis
    unfolding ex gl ins by (simp add: cn)
qed

text \<open>
  C3. The block list loaded from the line \<^verbatim>\<open>ads.example.com\<close> contains
  \<^verbatim>\<open>ads.example.com.\<close> and does not contain \<^verbatim>\<open>ADS.example.com.\<close>, whose
  lower-cased form is the former: \<^verbatim>\<open>Blocklist.Contains\<close> looks the name up in the
  exact-name set as it is given. The trie does lower-case the name it is asked about:
  its answer for a name and for the lower-cased name are the same.
\<close>

theorem Blocklist_Contains_exact_path_is_case_sensitive:
  "Blocklist_Load \<lparr>tokens = [''ads.example.com''], scanErr = None\<rparr>
     = (Some \<lparr>exact = {''ads.example.com.''}, glob = GlobTrie_New\<rparr>, 1, None)
   \<and> Blocklist_Contains \<lparr>exact = {''ads.example.com.''}, glob = GlobTrie_New\<rparr>
         ''ads.example.com.'' = True
   \<and> Blocklist_Contains \<lparr>exact = {''ads.example.com.''}, glob = GlobTrie_New\<rparr>
         ''ADS.example.com.'' = False
   \<and> ToLower ''ADS.example.com.'' = ''ads.example.com.''
   \<and> GlobTrie_Contains lm (ToLower n) = GlobTrie_Contains lm n"
  by (simp add: Contains_ToLower) (simp add: blocklist_defs dns_defs trie_defs)

section \<open>The label trie: matching\<close>

text \<open>
  C5. With the patterns \<^verbatim>\<open>sub2.*.example.com\<close>, \<^verbatim>\<open>*.example.com\<close> and
  \<^verbatim>\<open>sub1.example.com\<close> in the trie, \<^verbatim>\<open>Contains\<close> is true for
  \<^verbatim>\<open>sub2.sub1.example.com\<close> and for \<^verbatim>\<open>sub2.ss.example.com\<close> (the walk falls
  back to the wildcard child of the previous node). Once
  \<^verbatim>\<open>z.sub2.sub1.example.com\<close> is inserted as well, \<^verbatim>\<open>Contains\<close> is false for
  \<^verbatim>\<open>sub2.sub1.example.com\<close>: the walk follows the exact children \<^verbatim>\<open>sub1\<close> and
  \<^verbatim>\<open>sub2\<close>, ends in a node without the terminal marker, and does not fall back.
  The same happens to \<^verbatim>\<open>sub2.ss.example.com\<close> once \<^verbatim>\<open>z.sub2.ss.example.com\<close>
  is inserted.
\<close>

theorem GlobTrie_Contains_fallback_lost_under_longer_pattern:
  "GlobTrie_Contains
     (insertAll GlobTrie_New [''sub2.*.example.com'', ''*.example.com'', ''sub1.example.com''])
     ''sub2.sub1.example.com'' = True
   \<and> GlobTrie_Contains
     (insertAll GlobTrie_New [''sub2.*.example.com'', ''*.example.com'', ''sub1.example.com''])
     ''sub2.ss.example.com'' = True
   \<and> GlobTrie_Contains
     (insertAll GlobTrie_New
        [''sub2.*.example.com'', ''*.example.com'', ''sub1.example.com'',
         ''z.sub2.sub1.example.com''])
     ''sub2.sub1.example.com'' = False
   \<and> GlobTrie_Contains
     (insertAll GlobTrie_New
        [''sub2.*.example.com'', ''*.example.com'', ''sub1.example.com'',
         ''z.sub2.ss.example.com''])
     ''sub2.ss.example.com'' = False"
  by (simp add: dns_defs trie_defs)

text \<open>
  C6. With \<^verbatim>\<open>*.example.com\<close> alone in the trie, \<^verbatim>\<open>Contains\<close> is true for
  \<^verbatim>\<open>www.example.com\<close> and false for \<^verbatim>\<open>example.com\<close>. Once
  \<^verbatim>\<open>a.www.example.com\<close> is inserted as well, \<^verbatim>\<open>Contains\<close> is false for
  \<^verbatim>\<open>www.example.com\<close>: the walk follows the exact child \<^verbatim>\<open>www\<close>, which has no
  terminal marker, and never tries the wildcard child beside it.
\<close>

theorem GlobTrie_Contains_wildcard_lost_beside_exact_child:
  "GlobTrie_Contains (insertAll GlobTrie_New [''*.example.com'']) ''www.example.com'' = True
   \<and> GlobTrie_Contains (insertAll GlobTrie_New [''*.example.com'']) ''example.com'' = False
   \<and> GlobTrie_Contains (insertAll GlobTrie_New [''*.example.com'', ''a.www.example.com''])
         ''www.example.com'' = False
   \<and> GlobTrie_Contains (insertAll GlobTrie_New [''*.example.com'', ''a.www.example.com''])
         ''example.com'' = False"
  by (simp add: dns_defs trie_defs)

section \<open>The query dispatcher\<close>

text \<open>
  C1. For a query without a question, for a query whose first question has the class
  CH (3), and for one whose first question has the type MX (15), the handler writes one
  response, and its response code is the name-error code (3), not the refused code (5):
  \<^verbatim>\<open>writeErr\<close> does not use the code it is given.
\<close>

theorem HandleAandAAAA_refusals_carry_name_error:
  "rcodesWritten (HandleAandAAAA s (Inr hex) newId (r\<lparr>Question := []\<rparr>)) = [RcodeNameError]
   \<and> rcodesWritten (HandleAandAAAA s (Inr hex) newId
        (r\<lparr>Question := [\<lparr>Name = n, Qtype = TypeA, Qclass = 3\<rparr>]\<rparr>)) = [RcodeNameError]
   \<and> rcodesWritten (HandleAandAAAA s (Inr hex) newId
        (r\<lparr>Question := [\<lparr>Name = n, Qtype = 15, Qclass = ClassINET\<rparr>]\<rparr>)) = [RcodeNameError]
   \<and> Rcode (writeErr r code) = RcodeNameError
   \<and> RcodeNameError \<noteq> RcodeRefused"
  by (simp add: handler_defs Let_def split: list.split)

text \<open>
  C2. With \<^verbatim>\<open>ads.example.com.\<close> in the block list, a query for
  \<^verbatim>\<open>ads.example.com\<close> of class IN is answered without an upstream exchange. For the
  type A the answer is an A record for \<^verbatim>\<open>ads.example.com.\<close> with the address
  0.0.0.0. For the type AAAA the answer is again an A record with 0.0.0.0, of type 1 and
  class 28, not an AAAA record: the handler passes the type and the class to
  \<^verbatim>\<open>generateBlockedAnswer\<close> in the other order than its parameters.
\<close>

theorem HandleAandAAAA_blocked_AAAA_gets_A_record:
  "HandleAandAAAA
     \<lparr>exchanger = ex, nameservers = ns,
      blocklist = Blocklist_Contains \<lparr>exact = {''ads.example.com.''}, glob = GlobTrie_New\<rparr>\<rparr>
     (Inr hex) newId
     (r\<lparr>Question := [\<lparr>Name = ''ads.example.com'', Qtype = TypeAAAA, Qclass = ClassINET\<rparr>]\<rparr>)
   = Inr \<lparr>written =
            [writeAnswer
               (r\<lparr>Question :=
                    [\<lparr>Name = ''ads.example.com'', Qtype = TypeAAAA, Qclass = ClassINET\<rparr>]\<rparr>)
               [A \<lparr>HdrName = ''ads.example.com.'', Rrtype = 1, Class = 28\<rparr> IPv4zero]],
          exchanges = [], chooser = ns\<rparr>
   \<and> HandleAandAAAA
     \<lparr>exchanger = ex, nameservers = ns,
      blocklist = Blocklist_Contains \<lparr>exact = {''ads.example.com.''}, glob = GlobTrie_New\<rparr>\<rparr>
     (Inr hex) newId
     (r\<lparr>Question := [\<lparr>Name = ''ads.example.com'', Qtype = TypeA, Qclass = ClassINET\<rparr>]\<rparr>)
   = Inr \<lparr>written =
            [writeAnswer
               (r\<lparr>Question :=
                    [\<lparr>Name = ''ads.example.com'', Qtype = TypeA, Qclass = ClassINET\<rparr>]\<rparr>)
               [A \<lparr>HdrName = ''ads.example.com.'', Rrtype = 1, Class = 1\<rparr> IPv4zero]],
          exchanges = [], chooser = ns\<rparr>
   \<and> generateBlockedAnswer fqdn TypeAAAA ClassINET
       = A \<lparr>HdrName = fqdn, Rrtype = 1, Class = 28\<rparr> IPv4zero"
  by (simp add: HandleAandAAAA_def generateRequestID_def isValidQtype_def
        generateBlockedAnswer_def ClassINET_def TypeA_def TypeAAAA_def Let_def
        Blocklist_Contains_def StringSet_Contains_def Fqdn_def IsFqdn_def)

text \<open>
  C4. For a forwarded query (the name is not blocked), when the upstream exchange
  returns an error, and when it returns a response with another identifier than the
  query's, the handler writes one response whose code is the name-error code (3), not
  the server-failure code (2): \<^verbatim>\<open>writeErr\<close> does not use the code it is given.
  When the exchange returns a response with the query's identifier and no answer, the
  code is the name-error code.
\<close>

theorem HandleAandAAAA_upstream_failures_carry_name_error:
  "rcodesWritten
     (HandleAandAAAA
        \<lparr>exchanger = (\<lambda>m a. Inl (ExchangeError ''i/o timeout'')),
         nameservers = RoundRobin_New [''1.1.1.1:53''],
         blocklist = Blocklist_Contains Blocklist_Empty\<rparr>
        (Inr hex) newId
        (r\<lparr>Question := [\<lparr>Name = ''example.com'', Qtype = TypeA, Qclass = ClassINET\<rparr>]\<rparr>))
     = [RcodeNameError]
   \<and> rcodesWritten
     (HandleAandAAAA
        \<lparr>exchanger = (\<lambda>m a. Inr (m\<lparr>Id := Id m + 1, Response := True\<rparr>)),
         nameservers = RoundRobin_New [''1.1.1.1:53''],
         blocklist = Blocklist_Contains Blocklist_Empty\<rparr>
        (Inr hex) newId
        (r\<lparr>Question := [\<lparr>Name = ''example.com'', Qtype = TypeA, Qclass = ClassINET\<rparr>]\<rparr>))
     = [RcodeNameError]
   \<and> rcodesWritten
     (HandleAandAAAA
        \<lparr>exchanger = (\<lambda>m a. Inr (m\<lparr>Response := True\<rparr>)),
         nameservers = RoundRobin_New [''1.1.1.1:53''],
         blocklist = Blocklist_Contains Blocklist_Empty\<rparr>
        (Inr hex) newId
        (r\<lparr>Question := [\<lparr>Name = ''example.com'', Qtype = TypeA, Qclass = ClassINET\<rparr>]\<rparr>))
     = [RcodeNameError]
   \<and> RcodeNameError \<noteq> RcodeServerFailure"
  by (simp add: handler_defs blocklist_defs dns_defs trie_defs RoundRobin_New_def
        RoundRobin_Next_def)

section \<open>Further properties of the label trie and the name-server list\<close>

lemma splitDots_label:
  "CHR ''.'' \<notin> set l \<Longrightarrow> splitDots acc (l @ CHR ''.'' # rest) = (rev acc @ l) # splitDots [] rest"
proof (induction l arbitrary: acc)
  case Nil
  show ?case by simp
next
  case (Cons c l)
  then have "c \<noteq> CHR ''.''" "CHR ''.'' \<notin> set l" by auto
  then show ?case using Cons.IH [of "c # acc"] by simp
qed

lemma dot_in_ToLower [simp]: "CHR ''.'' \<in> set (ToLower s) \<longleftrightarrow> CHR ''.'' \<in> set s"
  using toLowerByte_dot by (induction s) (auto simp: ToLower_def eq_commute [of "CHR ''.''"])

lemma ToLower_append: "ToLower (a @ b) = ToLower a @ ToLower b"
  by (simp add: ToLower_def)

lemma length_ToLower [simp]: "length (ToLower s) = length s"
  by (simp add: ToLower_def)

lemma asciiName_ToLower: "asciiName l \<Longrightarrow> asciiName (ToLower l)"
  by (induction l) (simp_all add: asciiName_def ToLower_def of_char_toLowerByte)

lemma plainLabel_ToLower: "plainLabel l \<Longrightarrow> plainLabel (ToLower l)"
  by (simp add: plainLabel_def legalLabel_def asciiName_ToLower)

lemma IsDomainName_unqualified:
  assumes "s \<noteq> []" "\<not> IsFqdn s"
  shows "IsDomainName s \<longleftrightarrow>
           list_all legalLabel (SplitDomainName s) \<and> wireLength (SplitDomainName s) \<le> 255"
proof -
  have "Fqdn s \<noteq> ''.''" using assms by (auto simp: Fqdn_def)
  with assms show ?thesis by (simp add: IsDomainName_def Split_Fqdn)
qed

lemma under_example_com:
  assumes "plainLabel l"
  shows "SplitDomainName (l @ ''.example.com'') = [l, ''example'', ''com'']"
    and "IsDomainName (l @ ''.example.com'')"
    and "CHR ''!'' \<notin> set (l @ ''.example.com'')"
    and "CHR ''*'' \<notin> set (l @ ''.example.com'')"
proof -
  from assms have nodot: "CHR ''.'' \<notin> set l" by (simp add: plainLabel_def)
  have nf: "\<not> IsFqdn (l @ ''.example.com'')" by (simp add: IsFqdn_def)
  have "splitDots [] (l @ ''.example.com'') = [l, ''example'', ''com'']"
    using splitDots_label [OF nodot, of "[]" "''example.com''"] by simp
  with nf show sp: "SplitDomainName (l @ ''.example.com'') = [l, ''example'', ''com'']"
    by (simp add: SplitDomainName_def)
  from assms have "length l \<le> 63" "1 \<le> length l" by (simp_all add: plainLabel_def legalLabel_def)
  then show "IsDomainName (l @ ''.example.com'')"
    using nf by (simp add: IsDomainName_unqualified sp legalLabel_def wireLength_def)
  from assms show "CHR ''!'' \<notin> set (l @ ''.example.com'')" "CHR ''*'' \<notin> set (l @ ''.example.com'')"
    by (simp_all add: plainLabel_def)
qed

lemma ToLower_under_example_com:
  "ToLower (l @ ''.example.com'') = ToLower l @ ''.example.com''"
  by (simp add: ToLower_append) (simp add: dns_defs)

lemma Contains_under_example_com:
  assumes "plainLabel l"
  shows "GlobTrie_Contains lm (l @ ''.example.com'') =
           (case containsLoop (root lm) None [''com'', ''example'', ToLower l] of
              None \<Rightarrow> False
            | Some n \<Rightarrow> (case children n ''!'' of None \<Rightarrow> False | Some _ \<Rightarrow> True))"
  using under_example_com [OF plainLabel_ToLower [OF assms]]
  by (simp add: GlobTrie_Contains_def ToLower_under_example_com)

lemma wildcard_child_general:
  assumes star: "hasPath (patternPath ''*.example.com'') (root lm)" and l: "plainLabel l"
  shows "GlobTrie_Contains lm (l @ ''.example.com'') \<longleftrightarrow>
           (hasPath [''com'', ''example'', ToLower l] (root lm) \<longrightarrow>
            hasPath [''com'', ''example'', ToLower l, ''!''] (root lm))"
proof -
  have pp: "patternPath ''*.example.com'' = [''com'', ''example'', ''*'', ''!'']"
    by (simp add: patternPath_def dns_defs)
  from star obtain c1 c2 g m where
    c: "children (root lm) ''com'' = Some c1" "children c1 ''example'' = Some c2"
       "children c2 ''*'' = Some g" "children g ''!'' = Some m"
    unfolding pp by (auto split: option.splits)
  have ne: "ToLower l \<noteq> ''*''"
  proof
    assume "ToLower l = ''*''"
    then have "CHR ''*'' \<in> set (ToLower l)" by simp
    with l show False by (simp add: plainLabel_def)
  qed
  show ?thesis
    using c by (simp add: Contains_under_example_com [OF l] split: option.splits)
qed

lemma under_label_example_com:
  assumes "plainLabel a" "plainLabel l"
  shows "SplitDomainName (a @ CHR ''.'' # l @ ''.example.com'') = [a, l, ''example'', ''com'']"
    and "IsDomainName (a @ CHR ''.'' # l @ ''.example.com'')"
    and "CHR ''!'' \<notin> set (a @ CHR ''.'' # l @ ''.example.com'')"
    and "CHR ''*'' \<notin> set (a @ CHR ''.'' # l @ ''.example.com'')"
proof -
  let ?s = "a @ CHR ''.'' # l @ ''.example.com''"
  from assms have nodot: "CHR ''.'' \<notin> set a" "CHR ''.'' \<notin> set l"
    by (simp_all add: plainLabel_def)
  have nf: "\<not> IsFqdn ?s" by (simp add: IsFqdn_def)
  have "splitDots [] ?s = a # splitDots [] (l @ ''.example.com'')"
    using splitDots_label [OF nodot(1), of "[]" "l @ ''.example.com''"] by simp
  also have "splitDots [] (l @ ''.example.com'') = [l, ''example'', ''com'']"
    using splitDots_label [OF nodot(2), of "[]" "''example.com''"] by simp
  finally have "splitDots [] ?s = [a, l, ''example'', ''com'']" .
  with nf show sp: "SplitDomainName ?s = [a, l, ''example'', ''com'']"
    by (simp add: SplitDomainName_def)
  from assms have "length l \<le> 63" "1 \<le> length l" "length a \<le> 63" "1 \<le> length a"
    by (simp_all add: plainLabel_def legalLabel_def)
  then show "IsDomainName ?s"
    using nf by (simp add: IsDomainName_unqualified sp legalLabel_def wireLength_def)
  from assms show "CHR ''!'' \<notin> set ?s" "CHR ''*'' \<notin> set ?s"
    by (simp_all add: plainLabel_def)
qed

lemma ToLower_under_label_example_com:
  "ToLower (a @ CHR ''.'' # l @ ''.example.com'')
     = ToLower a @ CHR ''.'' # ToLower l @ ''.example.com''"
proof -
  have "ToLower (CHR ''.'' # l @ ''.example.com'') = CHR ''.'' # ToLower l @ ToLower ''.example.com''"
    by (simp add: ToLower_def toLowerByte_def)
  moreover have "ToLower ''.example.com'' = ''.example.com''"
    by (simp add: dns_defs)
  ultimately show ?thesis by (simp add: ToLower_append)
qed

lemma Contains_under_label_example_com:
  assumes "plainLabel a" "plainLabel l"
  shows "GlobTrie_Contains lm (a @ CHR ''.'' # l @ ''.example.com'') =
           (case containsLoop (root lm) None [''com'', ''example'', ToLower l, ToLower a] of
              None \<Rightarrow> False
            | Some n \<Rightarrow> (case children n ''!'' of None \<Rightarrow> False | Some _ \<Rightarrow> True))"
  using under_label_example_com [OF plainLabel_ToLower [OF assms(1)] plainLabel_ToLower [OF assms(2)]]
  by (simp add: GlobTrie_Contains_def ToLower_under_label_example_com)

lemma fallback_general:
  assumes a: "plainLabel a" and l: "plainLabel l"
    and pat: "hasPath [''com'', ''example'', ''*'', ToLower a, ''!''] (root lm)"
    and nosub: "\<not> hasPath [''com'', ''example'', ToLower l, ToLower a] (root lm)"
    and noglob: "\<not> hasPath [''com'', ''example'', ToLower l, ''*''] (root lm)"
  shows "GlobTrie_Contains lm (a @ CHR ''.'' # l @ ''.example.com'')"
proof -
  from pat obtain c1 c2 g h m where
    c: "children (root lm) ''com'' = Some c1" "children c1 ''example'' = Some c2"
       "children c2 ''*'' = Some g" "children g (ToLower a) = Some h" "children h ''!'' = Some m"
    by (auto split: option.splits)
  have last: "containsLoop g None [ToLower a] = Some h"
    using c by simp
  have "containsLoop c2 (Some c1) [ToLower l, ToLower a] = Some h"
  proof (cases "children c2 (ToLower l)")
    case None
    with c last show ?thesis by simp
  next
    case (Some n)
    with c nosub noglob have "children n (ToLower a) = None" "children n ''*'' = None"
      by (auto split: option.splits)
    with Some c last show ?thesis by simp
  qed
  with c have "containsLoop (root lm) None [''com'', ''example'', ToLower l, ToLower a] = Some h"
    by simp
  with c show ?thesis
    by (simp add: Contains_under_label_example_com [OF a l])
qed

lemma insertLabels_commute:
  "insertLabels p (insertLabels q n) = insertLabels q (insertLabels p n)"
proof (induction p arbitrary: q n)
  case Nil
  show ?case by simp
next
  case (Cons a p)
  show ?case
  proof (cases q)
    case Nil
    then show ?thesis by simp
  next
    case (Cons b q')
    show ?thesis
    proof (cases "a = b")
      case True
      with Cons Cons.IH show ?thesis by (simp add: Let_def)
    next
      case False
      with Cons show ?thesis by (simp add: Let_def fun_upd_twist)
    qed
  qed
qed

lemma uniqLoop_set: "set (uniqLoop seen vs) = set vs - seen"
  by (induction seen vs rule: uniqLoop.induct) auto

lemma uniqLoop_distinct: "distinct (uniqLoop seen vs)"
  by (induction seen vs rule: uniqLoop.induct) (auto simp: uniqLoop_set)

lemma insertAll_Cons: "insertAll lm (p # ps) = insertAll (fst (GlobTrie_Insert lm p)) ps"
  by (simp add: insertAll_def)

lemma insertAll_present:
  assumes "p \<in> set ps" "snd (GlobTrie_Insert GlobTrie_New p) = None"
  shows "hasPath (patternPath p) (root (insertAll lm ps))"
  using assms(1)
proof (induction ps arbitrary: lm)
  case Nil
  then show ?case by simp
next
  case (Cons q ps)
  show ?case
  proof (cases "p = q")
    case True
    have "snd (GlobTrie_Insert lm p) = None"
      using assms(2) Insert_error_indep [of lm p GlobTrie_New] by simp
    then have "hasPath (patternPath p) (root (fst (GlobTrie_Insert lm p)))"
      by (simp add: Insert_root hasPath_insertLabels_same)
    with True show ?thesis
      by (simp add: insertAll_Cons insertAll_mono)
  next
    case False
    with Cons.prems have "p \<in> set ps" by simp
    then show ?thesis
      by (simp add: insertAll_Cons Cons.IH)
  qed
qed

lemma star_example_com_valid:
  "snd (GlobTrie_Insert GlobTrie_New ''*.example.com'') = None"
  "patternPath ''*.example.com'' = [''com'', ''example'', ''*'', ''!'']"
  "snd (GlobTrie_Insert GlobTrie_New ''sub2.*.example.com'') = None"
  "patternPath ''sub2.*.example.com'' = [''com'', ''example'', ''*'', ''sub2'', ''!'']"
  by (simp_all add: patternPath_def dns_defs trie_defs)

text \<open>
  The wildcard child, in general. When \<^verbatim>\<open>*.example.com\<close> is among the patterns inserted, \<^verbatim>\<open>Contains\<close> is
  true for \<^verbatim>\<open>L.example.com\<close>, \<open>L\<close> one label without reserved characters, exactly
  when the node \<^verbatim>\<open>example\<close> has no exact child for (the lower-cased) \<open>L\<close>, or
  has one that carries the terminal marker: the wildcard child is tried only when there
  is no exact child.
\<close>

theorem GlobTrie_Contains_wildcard_exactly:
  assumes "''*.example.com'' \<in> set ps" and "plainLabel l"
  shows "GlobTrie_Contains (insertAll lm ps) (l @ ''.example.com'') \<longleftrightarrow>
           (hasPath [''com'', ''example'', ToLower l] (root (insertAll lm ps)) \<longrightarrow>
            hasPath [''com'', ''example'', ToLower l, ''!''] (root (insertAll lm ps)))"
proof (rule wildcard_child_general)
  show "hasPath (patternPath ''*.example.com'') (root (insertAll lm ps))"
    using assms(1) star_example_com_valid(1) by (rule insertAll_present)
  show "plainLabel l" by (rule assms(2))
qed

theorem GlobTrie_Contains_wildcard_exactly_witness:
  "GlobTrie_Contains
     (insertAll GlobTrie_New [''sub1.example.com'', ''*.example.com'', ''a.www.example.com''])
     ''jubilee.example.com''
   \<and> GlobTrie_Contains
     (insertAll GlobTrie_New [''sub1.example.com'', ''*.example.com'', ''a.www.example.com''])
     ''sub1.example.com''
   \<and> \<not> GlobTrie_Contains
     (insertAll GlobTrie_New [''sub1.example.com'', ''*.example.com'', ''a.www.example.com''])
     ''www.example.com''"
proof -
  let ?ps = "[''sub1.example.com'', ''*.example.com'', ''a.www.example.com'']"
  have mem: "''*.example.com'' \<in> set ?ps" by simp
  have plain: "plainLabel ''jubilee''" "plainLabel ''sub1''" "plainLabel ''www''"
    by (simp_all add: plainLabel_def legalLabel_def asciiName_def)
  have low: "ToLower ''jubilee'' = ''jubilee''" "ToLower ''sub1'' = ''sub1''"
    "ToLower ''www'' = ''www''"
    by (simp_all add: dns_defs)
  have paths:
    "\<not> hasPath [''com'', ''example'', ''jubilee''] (root (insertAll GlobTrie_New ?ps))"
    "hasPath [''com'', ''example'', ''sub1'', ''!''] (root (insertAll GlobTrie_New ?ps))"
    "hasPath [''com'', ''example'', ''www''] (root (insertAll GlobTrie_New ?ps))"
    "\<not> hasPath [''com'', ''example'', ''www'', ''!''] (root (insertAll GlobTrie_New ?ps))"
    by (simp_all add: dns_defs trie_defs)
  have "GlobTrie_Contains (insertAll GlobTrie_New ?ps) (''jubilee'' @ ''.example.com'')"
    using GlobTrie_Contains_wildcard_exactly [OF mem plain(1), of GlobTrie_New] paths(1)
    unfolding low by blast
  moreover have "GlobTrie_Contains (insertAll GlobTrie_New ?ps) (''sub1'' @ ''.example.com'')"
    using GlobTrie_Contains_wildcard_exactly [OF mem plain(2), of GlobTrie_New] paths(2)
    unfolding low by blast
  moreover have "\<not> GlobTrie_Contains (insertAll GlobTrie_New ?ps) (''www'' @ ''.example.com'')"
    using GlobTrie_Contains_wildcard_exactly [OF mem plain(3), of GlobTrie_New] paths(3,4)
    unfolding low by blast
  ultimately show ?thesis by simp
qed

text \<open>
  The fallback to the previous node, in general. When \<^verbatim>\<open>sub2.*.example.com\<close> is among the patterns inserted, \<^verbatim>\<open>Contains\<close>
  is true for \<^verbatim>\<open>sub2.L.example.com\<close>, \<open>L\<close> one label without reserved characters,
  whenever the node reached by \<^verbatim>\<open>com\<close>, \<^verbatim>\<open>example\<close>, \<open>L\<close> (if there is one) has
  neither a child \<^verbatim>\<open>sub2\<close> nor a wildcard child: the walk takes the exact child for
  \<open>L\<close> if there is one, fails at \<^verbatim>\<open>sub2\<close>, steps into the wildcard child of the
  previous node and examines \<^verbatim>\<open>sub2\<close> again.
\<close>

theorem GlobTrie_Contains_previous_wildcard_fallback:
  assumes "''sub2.*.example.com'' \<in> set ps" and "plainLabel l"
    and "\<not> hasPath [''com'', ''example'', ToLower l, ''sub2''] (root (insertAll lm ps))"
    and "\<not> hasPath [''com'', ''example'', ToLower l, ''*''] (root (insertAll lm ps))"
  shows "GlobTrie_Contains (insertAll lm ps) (''sub2.'' @ l @ ''.example.com'')"
proof -
  have a: "plainLabel ''sub2''" by (simp add: plainLabel_def legalLabel_def asciiName_def)
  have low: "ToLower ''sub2'' = ''sub2''" by (simp add: dns_defs)
  have "hasPath (patternPath ''sub2.*.example.com'') (root (insertAll lm ps))"
    using assms(1) star_example_com_valid(3) by (rule insertAll_present)
  then have pat: "hasPath [''com'', ''example'', ''*'', ''sub2'', ''!''] (root (insertAll lm ps))"
    by (simp only: star_example_com_valid(4))
  show ?thesis
    using fallback_general [OF a assms(2), of "insertAll lm ps"] pat assms(3,4)
    by (simp add: low)
qed

theorem GlobTrie_Contains_previous_wildcard_fallback_witness:
  "GlobTrie_Contains
     (insertAll GlobTrie_New
        [''sub1.example.com'', ''*.example.com'', ''sub2.*.example.com'',
         ''sub3.sub1.example.com''])
     ''sub2.sub1.example.com''"
proof -
  let ?ps = "[''sub1.example.com'', ''*.example.com'', ''sub2.*.example.com'',
              ''sub3.sub1.example.com'']"
  have mem: "''sub2.*.example.com'' \<in> set ?ps" by simp
  have plain: "plainLabel ''sub1''" by (simp add: plainLabel_def legalLabel_def asciiName_def)
  have low: "ToLower ''sub1'' = ''sub1''" by (simp add: dns_defs)
  have paths:
    "\<not> hasPath [''com'', ''example'', ToLower ''sub1'', ''sub2'']
         (root (insertAll GlobTrie_New ?ps))"
    "\<not> hasPath [''com'', ''example'', ToLower ''sub1'', ''*'']
         (root (insertAll GlobTrie_New ?ps))"
    unfolding low by (simp_all add: dns_defs trie_defs)
  show ?thesis
    using GlobTrie_Contains_previous_wildcard_fallback [OF mem plain paths] by simp
qed

text \<open>
  Reserved characters. \<^verbatim>\<open>Contains\<close> is false for every name that contains the wildcard character
  \<^verbatim>\<open>*\<close> or the terminal-marker character \<^verbatim>\<open>!\<close>, whatever the trie holds.
\<close>

theorem GlobTrie_Contains_rejects_reserved_characters:
  assumes "CHR ''*'' \<in> set n \<or> CHR ''!'' \<in> set n"
  shows "\<not> GlobTrie_Contains lm n"
  using assms by (auto simp: GlobTrie_Contains_def Let_def)

theorem GlobTrie_Contains_rejects_reserved_characters_witness:
  "\<not> GlobTrie_Contains (insertAll GlobTrie_New [''*.example.com'']) ''*.example.com''"
  using GlobTrie_Contains_rejects_reserved_characters
    [of "''*.example.com''" "insertAll GlobTrie_New [''*.example.com'']"]
  by simp

text \<open>
  The order of two insertions does not matter: inserting \<open>p\<close> and then \<open>q\<close> leaves
  the same trie as inserting \<open>q\<close> and then \<open>p\<close>.
\<close>

theorem GlobTrie_Insert_order_irrelevant:
  "fst (GlobTrie_Insert (fst (GlobTrie_Insert lm p)) q)
     = fst (GlobTrie_Insert (fst (GlobTrie_Insert lm q)) p)"
  by (simp add: GlobTrie_Insert_def Let_def insertLabels_commute)

text \<open>
  \<^verbatim>\<open>Uniq\<close> returns the values of the list without repetition: every value of
  the list occurs in the result, each once.
\<close>

theorem IPList_Uniq_distinct:
  "distinct (IPList_Uniq l) \<and> set (IPList_Uniq l) = set (ipValues l)"
  by (simp add: IPList_Uniq_def uniqLoop_distinct uniqLoop_set)

end
